theory Spec2Isabelle
  imports Main "HOL-Library.Multiset"
begin

section \<open>Conventions of the embedding\<close>

text \<open>
  The development embeds the document splitters (\<^verbatim>\<open>pdf_splitter.py\<close>,
  \<^verbatim>\<open>xlsx_splitter.py\<close>) and the map-reduce orchestrator
  (\<^verbatim>\<open>processor.py\<close>) of the repository.

  \<^item> A Python \<^verbatim>\<open>bytes\<close> value is a list of naturals (one per byte); only its length
    and its identity matter to the code.
  \<^item> A Python \<^verbatim>\<open>str\<close> is a \<^typ>\<open>string\<close>; every \<^typ>\<open>char\<close> stands for one code
    point below 256, so \<^const>\<open>length\<close> is Python's \<^verbatim>\<open>len\<close> on such strings.
  \<^item> A raised exception is the \<open>Inl\<close> of a sum; the exception value is kept.
\<close>

type_synonym bytes = "nat list"

datatype exn =
    LibraryError string
  | PDFSplitError exn
  | XLSXSplitError exn

section \<open>settings.py\<close>

definition BYTES_THRESHOLD :: nat where
  "BYTES_THRESHOLD = 4300000"

definition MAX_CONTEXT_CHARS :: nat where
  "MAX_CONTEXT_CHARS = 150000"

section \<open>String helpers of the Python runtime\<close>

text \<open>\<^verbatim>\<open>sep.join(xs)\<close>.\<close>

fun str_join :: "string \<Rightarrow> string list \<Rightarrow> string" where
  "str_join sep [] = []"
| "str_join sep [x] = x"
| "str_join sep (x # y # ys) = x @ sep @ str_join sep (y # ys)"

text \<open>
  \<^verbatim>\<open>ord(c)\<close>, and the whitespace class of \<^verbatim>\<open>re\<close>'s \<^verbatim>\<open>\s\<close> on a \<^verbatim>\<open>str\<close> pattern and of
  \<^verbatim>\<open>str.strip()\<close>, for code points below 256: TAB, LF, VT, FF, CR, the four separators
  FS, GS, RS, US, the space, NEL (0x85) and the no-break space (0xA0).
\<close>

definition ord :: "char \<Rightarrow> nat" where
  "ord c = of_char c"

definition is_space :: "char \<Rightarrow> bool" where
  "is_space c = (ord c \<in> {9, 10, 11, 12, 13, 28, 29, 30, 31, 32, 133, 160})"

text \<open>\<^verbatim>\<open>s.replace(a, b)\<close> for one-character \<^verbatim>\<open>a\<close> and \<^verbatim>\<open>b\<close>.\<close>

definition replace_char :: "char \<Rightarrow> char \<Rightarrow> string \<Rightarrow> string" where
  "replace_char a b s = map (\<lambda>c. if c = a then b else c) s"

text \<open>
  A character that the negated class \<^verbatim>\<open>[^a-zA-Z0-9\s\-\(\)\[\]]\<close> does not match, that is, a
  character that \<^verbatim>\<open>re.sub(..., '', name)\<close> keeps. The class lists \<^verbatim>\<open>\s\<close>.
\<close>

definition kept_char :: "char \<Rightarrow> bool" where
  "kept_char c =
     ((ord CHR ''a'' \<le> ord c \<and> ord c \<le> ord CHR ''z'') \<or>
      (ord CHR ''A'' \<le> ord c \<and> ord c \<le> ord CHR ''Z'') \<or>
      (ord CHR ''0'' \<le> ord c \<and> ord c \<le> ord CHR ''9'') \<or>
      is_space c \<or>
      c = CHR ''-'' \<or> c = CHR ''('' \<or> c = CHR '')'' \<or> c = CHR ''['' \<or> c = CHR '']'')"

text \<open>\<^verbatim>\<open>re.sub(r'\s+', ' ', name)\<close>: every maximal run of whitespace becomes one space.\<close>

function collapse_spaces :: "string \<Rightarrow> string" where
  "collapse_spaces [] = []"
| "collapse_spaces (c # cs) =
     (if is_space c then CHR '' '' # collapse_spaces (dropWhile is_space cs)
      else c # collapse_spaces cs)"
  by pat_completeness auto
termination
  by (relation "measure length") (auto simp: length_dropWhile_le less_Suc_eq_le)

text \<open>\<^verbatim>\<open>s.strip()\<close>.\<close>

definition strip :: "string \<Rightarrow> string" where
  "strip s = rev (dropWhile is_space (rev (dropWhile is_space s)))"

section \<open>Binary64 arithmetic of the size heuristics\<close>

text \<open>
  The splitters compute with Python floats: \<^verbatim>\<open>int(TARGET_LIMIT_BYTES * 0.90)\<close>,
  \<^verbatim>\<open>len(file_bytes) / total_pages\<close>, \<^verbatim>\<open>int(batch_size * 0.7)\<close>. A non-negative finite float is
  a pair \<open>(m, e)\<close> that stands for \<open>m * 2 ^ e\<close>. Every operation computes the exact result
  and rounds it to 53 significant bits, to nearest, ties to even, as IEEE 754 binary64 does
  (overflow and subnormal numbers are out of reach of the sizes and page counts involved).
  The exact arithmetic would give another program: \<^verbatim>\<open>int(90 * 0.7)\<close> is 62 in Python.
\<close>

type_synonym float64 = "nat \<times> int"

text \<open>\<^verbatim>\<open>int.bit_length()\<close>.\<close>

fun bit_length :: "nat \<Rightarrow> nat" where
  "bit_length n = (if n = 0 then 0 else Suc (bit_length (n div 2)))"

declare bit_length.simps [simp del]

definition fl_round :: "float64 \<Rightarrow> float64" where
  "fl_round x =
     (case x of (m, e) \<Rightarrow>
        if m < 2 ^ 53 then (m, e)
        else
          (let k = bit_length m - 53;
               q = m div 2 ^ k;
               r = m mod 2 ^ k;
               h = 2 ^ (k - 1)
           in (if h < r \<or> (r = h \<and> odd q) then q + 1 else q, e + int k)))"

text \<open>\<^verbatim>\<open>float(n)\<close> for an \<^verbatim>\<open>int\<close>.\<close>

definition fl_of_nat :: "nat \<Rightarrow> float64" where
  "fl_of_nat n = fl_round (n, 0)"

definition fl_mul :: "float64 \<Rightarrow> float64 \<Rightarrow> float64" where
  "fl_mul x y = fl_round (fst x * fst y, snd x + snd y)"

text \<open>
  Division by a positive float: the quotient is computed to at least 56 bits, and one more
  bit records whether the division left a remainder, so that rounding sees the exact
  quotient's side of every tie. \<^verbatim>\<open>int / int\<close> in Python rounds the exact quotient of the
  two integers once, which is \<open>fl_div (a, 0) (b, 0)\<close>.
\<close>

definition fl_div :: "float64 \<Rightarrow> float64 \<Rightarrow> float64" where
  "fl_div x y =
     (let s = 55 + bit_length (fst y);
          n = fst x * 2 ^ s;
          sticky = (if n mod fst y = 0 then 0 else 1)
      in fl_round (2 * (n div fst y) + sticky, snd x - snd y - int s - 1))"

text \<open>\<^verbatim>\<open>int(x)\<close> for a non-negative float.\<close>

definition fl_trunc :: "float64 \<Rightarrow> nat" where
  "fl_trunc x =
     (case x of (m, e) \<Rightarrow> if 0 \<le> e then m * 2 ^ nat e else m div 2 ^ nat (- e))"

text \<open>\<^verbatim>\<open>n < x\<close> and \<^verbatim>\<open>n > x\<close> for an \<^verbatim>\<open>int\<close> \<open>n\<close> and a float \<open>x\<close>: Python compares exactly.\<close>

definition nat_less_fl :: "nat \<Rightarrow> float64 \<Rightarrow> bool" where
  "nat_less_fl n x =
     (case x of (m, e) \<Rightarrow> if 0 \<le> e then n < m * 2 ^ nat e else n * 2 ^ nat (- e) < m)"

definition nat_greater_fl :: "nat \<Rightarrow> float64 \<Rightarrow> bool" where
  "nat_greater_fl n x =
     (case x of (m, e) \<Rightarrow> if 0 \<le> e then m * 2 ^ nat e < n else m < n * 2 ^ nat (- e))"

text \<open>The float literals of the splitters, as \<^verbatim>\<open>float.hex\<close> gives them.\<close>

definition fl_0_5 :: float64 where "fl_0_5 = (1, - 1)"
definition fl_0_7 :: float64 where "fl_0_7 = (6305039478318694, - 53)"
definition fl_0_9 :: float64 where "fl_0_9 = (8106479329266893, - 53)"
definition fl_0_95 :: float64 where "fl_0_95 = (8556839292003942, - 53)"
definition fl_1_5 :: float64 where "fl_1_5 = (3, - 1)"

section \<open>The splitters' limits and log\<close>

definition TARGET_LIMIT_BYTES :: nat where
  "TARGET_LIMIT_BYTES = 4 * 1024 * 1024"

definition SOFT_TARGET_BYTES :: nat where
  "SOFT_TARGET_BYTES = fl_trunc (fl_mul (fl_of_nat TARGET_LIMIT_BYTES) fl_0_9)"

text \<open>
  What the splitters write to the module logger: \<^verbatim>\<open>logger.exception(e)\<close>, and the size
  warning of the sheeted splitter with the chunk's size and the sheets of the chunk.
\<close>

datatype log_record =
    LogException exn
  | LogWarning nat "string list"

section \<open>pdf\_splitter.py: split\_pdf\<close>

text \<open>
  PyMuPDF is an external collaborator: \<open>fitz_open\<close> is \<^verbatim>\<open>fitz.open(stream=..., filetype="pdf")\<close>,
  \<open>page_count\<close> the document's \<^verbatim>\<open>page_count\<close>, and \<open>save_pages doc from_page to_page\<close>
  the body of the \<^verbatim>\<open>with fitz.open() as new_doc\<close> block: \<^verbatim>\<open>insert_pdf\<close> of the pages
  \<open>from_page .. to_page\<close> into a fresh document, saved with \<^verbatim>\<open>garbage=4, deflate=True\<close>.
  Each may raise.
\<close>

record 'doc pdf_lib =
  fitz_open :: "bytes \<Rightarrow> exn + 'doc"
  page_count :: "'doc \<Rightarrow> nat"
  save_pages :: "'doc \<Rightarrow> nat \<Rightarrow> int \<Rightarrow> exn + bytes"

text \<open>The heuristic of CASE 1 (lines 75 to 79): the batch size after an accepted chunk.\<close>

definition next_batch_size :: "nat \<Rightarrow> nat \<Rightarrow> nat" where
  "next_batch_size batch_size current_size =
     (if nat_less_fl current_size (fl_mul (fl_of_nat SOFT_TARGET_BYTES) fl_0_5)
      then fl_trunc (fl_mul (fl_of_nat batch_size) fl_1_5)
      else if nat_greater_fl current_size (fl_mul (fl_of_nat SOFT_TARGET_BYTES) fl_0_95)
      then max 1 (fl_trunc (fl_mul (fl_of_nat batch_size) fl_0_9))
      else batch_size)"

text \<open>CASE 2 (lines 86 to 91): the batch size after a chunk that is too large.\<close>

definition reduced_batch_size :: "nat \<Rightarrow> nat" where
  "reduced_batch_size batch_size =
     (let new_batch_size = int (fl_trunc (fl_mul (fl_of_nat batch_size) fl_0_7));
          new_batch_size' =
            (if int batch_size \<le> new_batch_size then int batch_size - 1 else new_batch_size)
      in nat (max 1 new_batch_size'))"

text \<open>
  The two nested loops of lines 48 to 92, as one loop on \<^verbatim>\<open>current_page\<close>,
  \<^verbatim>\<open>batch_size\<close> and \<^verbatim>\<open>chunks\<close>: CASE 1 leaves the inner \<^verbatim>\<open>while True\<close> and
  tests the outer condition again, CASE 2 repeats the inner loop with the page cursor
  unchanged, so the outer condition still holds. A loop that does not end is \<open>None\<close>.
\<close>

partial_function (option) split_loop ::
  "'doc pdf_lib \<Rightarrow> 'doc \<Rightarrow> nat \<Rightarrow> nat \<Rightarrow> nat \<Rightarrow> bytes list \<Rightarrow> (exn + bytes list) option"
where
  "split_loop lib src_doc total_pages current_page batch_size chunks =
     (if current_page < total_pages then
        (let end_page = min (current_page + batch_size) total_pages in
         case save_pages lib src_doc current_page (int end_page - 1) of
           Inl e \<Rightarrow> Some (Inl e)
         | Inr chunk_data \<Rightarrow>
             (let current_size = length chunk_data in
              if current_size \<le> TARGET_LIMIT_BYTES \<or> batch_size = 1
              then split_loop lib src_doc total_pages end_page
                     (next_batch_size batch_size current_size) (chunks @ [chunk_data])
              else split_loop lib src_doc total_pages current_page
                     (reduced_batch_size batch_size) chunks))
      else Some (Inr chunks))"

text \<open>
  \<^verbatim>\<open>split_pdf\<close>. The result pairs what was logged with the returned list or the raised
  \<^verbatim>\<open>PDFSplitError\<close>.
\<close>

definition split_pdf ::
  "'doc pdf_lib \<Rightarrow> bytes \<Rightarrow> (log_record list \<times> (exn + bytes list)) option" where
  "split_pdf lib file_bytes =
     (if length file_bytes < TARGET_LIMIT_BYTES then Some ([], Inr [file_bytes])
      else
        (case fitz_open lib file_bytes of
           Inl e \<Rightarrow> Some ([LogException e], Inl (PDFSplitError e))
         | Inr src_doc \<Rightarrow>
             (let total_pages = page_count lib src_doc in
              if total_pages = 0 then Some ([], Inr [])
              else
                (let avg_bytes_page = fl_div (length file_bytes, 0) (total_pages, 0);
                     batch_size =
                       max 1 (fl_trunc (fl_div (fl_of_nat SOFT_TARGET_BYTES) avg_bytes_page))
                 in case split_loop lib src_doc total_pages 0 batch_size [] of
                      None \<Rightarrow> None
                    | Some (Inl e) \<Rightarrow> Some ([LogException e], Inl (PDFSplitError e))
                    | Some (Inr chunks) \<Rightarrow> Some ([], Inr chunks)))))"

section \<open>pdf\_splitter.py: sanitize\_filename\<close>

definition sanitize_filename :: "string \<Rightarrow> string" where
  "sanitize_filename name =
     (let name1 = replace_char CHR ''.'' CHR '' '' (replace_char CHR ''_'' CHR '' '' name);
          name2 = filter kept_char name1;
          name3 = collapse_spaces name2
      in strip name3)"

section \<open>processor.py: consolidation of the partial results\<close>

text \<open>
  \<^verbatim>\<open>DocumentProcessor._consolidate_and_truncate\<close>. The two \<^verbatim>\<open>logger.info\<close> lines and the
  \<^verbatim>\<open>logger.warning\<close> do not change the returned string and are left out;
  \<^verbatim>\<open>num_chunks\<close> is only logged.
\<close>

definition TRUNCATION_MARKER :: string where
  "TRUNCATION_MARKER = CHR 0x0A # ''... [TRUNCATED]''"

definition consolidate_and_truncate :: "string list \<Rightarrow> nat \<Rightarrow> string" where
  "consolidate_and_truncate responses num_chunks =
     (let consolidated = str_join [CHR 0x0A, CHR 0x0A] responses
      in if length consolidated > MAX_CONTEXT_CHARS
         then take MAX_CONTEXT_CHARS consolidated @ TRUNCATION_MARKER
         else consolidated)"

text \<open>
  Lines 222 to 229 of \<^verbatim>\<open>_process_big\<close>: the gathered \<^verbatim>\<open>(chunk_number, response)\<close> pairs are
  sorted on the chunk number (Python's sort is stable, as \<^const>\<open>sort_key\<close> is), the responses
  are projected out and consolidated.
\<close>

definition consolidated_context :: "(nat \<times> string) list \<Rightarrow> nat \<Rightarrow> string" where
  "consolidated_context results num_chunks =
     (let sorted_results = sort_key fst results;
          responses_from_chunks = map snd sorted_results
      in consolidate_and_truncate responses_from_chunks num_chunks)"

section \<open>Splitting on whitespace\<close>

text \<open>
  Python's \<^verbatim>\<open>s.split()\<close>: the maximal runs of characters that are not whitespace, in
  order. It is not called by the repository; the result of \<^verbatim>\<open>sanitize_filename\<close> is stated
  with it.
\<close>

function split_words :: "string \<Rightarrow> string list" where
  "split_words s =
     (case dropWhile is_space s of
        [] \<Rightarrow> []
      | c # cs \<Rightarrow> (c # takeWhile (\<lambda>x. \<not> is_space x) cs)
                 # split_words (dropWhile (\<lambda>x. \<not> is_space x) cs))"
  by pat_completeness auto
termination
proof (relation "measure length", goal_cases)
  case 1
  show ?case by simp
next
  case (2 s c cs)
  have "length (dropWhile (\<lambda>x. \<not> is_space x) cs) \<le> length cs" by (rule length_dropWhile_le)
  moreover have "length (c # cs) \<le> length s" using 2 by (metis length_dropWhile_le)
  ultimately show ?case by simp
qed

declare split_words.simps [simp del]

text \<open>\<^verbatim>\<open>s.rstrip()\<close>, the right half of \<^const>\<open>strip\<close>.\<close>

definition rstrip :: "string \<Rightarrow> string" where
  "rstrip s = rev (dropWhile is_space (rev s))"

section \<open>Model documents for the examples\<close>

text \<open>
  A paged document is the list of the sizes of its pages; a range of pages serialises to as
  many bytes as its pages have, each byte 0. \<open>example_pdf_lib\<close> opens every file as a
  document of three pages of 100000, 5000000 and 100000 bytes: the second page alone is over
  the hard limit. \<open>empty_pdf_lib\<close> opens every file as a document without pages.
\<close>

definition example_save_pages :: "nat list \<Rightarrow> nat \<Rightarrow> int \<Rightarrow> exn + bytes" where
  "example_save_pages doc from_page to_page =
     Inr (replicate (sum_list (take (nat (to_page + 1) - from_page) (drop from_page doc))) 0)"

definition example_pages :: "nat list" where
  "example_pages = [100000, 5000000, 100000]"

definition example_pdf_lib :: "nat list pdf_lib" where
  "example_pdf_lib =
     \<lparr> fitz_open = (\<lambda>file_bytes. Inr example_pages),
       page_count = length,
       save_pages = example_save_pages \<rparr>"

definition example_pdf_file :: bytes where
  "example_pdf_file = replicate 5200000 0"

definition empty_pdf_lib :: "nat list pdf_lib" where
  "empty_pdf_lib =
     \<lparr> fitz_open = (\<lambda>file_bytes. Inr []),
       page_count = length,
       save_pages = example_save_pages \<rparr>"

text \<open>
  What a run of the loop from page \<open>start\<close> leaves behind: \<open>ends\<close> are the values the page
  cursor takes after each accepted batch and \<open>cs\<close> the chunks appended. Each batch starts
  where the one before ended, is not empty, was saved as its chunk, and is within the hard
  limit or is a single page.
\<close>

fun page_ranges :: "'doc pdf_lib \<Rightarrow> 'doc \<Rightarrow> nat \<Rightarrow> nat list \<Rightarrow> bytes list \<Rightarrow> bool" where
  "page_ranges lib src_doc start [] cs = (cs = [])"
| "page_ranges lib src_doc start (end_page # ends) [] = False"
| "page_ranges lib src_doc start (end_page # ends) (c # cs) =
     (start < end_page \<and> save_pages lib src_doc start (int end_page - 1) = Inr c \<and>
      (length c \<le> TARGET_LIMIT_BYTES \<or> end_page = start + 1) \<and>
      page_ranges lib src_doc end_page ends cs)"

text \<open>\<open>broken_pdf_lib\<close> opens every file as the example document and cannot save any page.\<close>

definition broken_pdf_lib :: "nat list pdf_lib" where
  "broken_pdf_lib =
     \<lparr> fitz_open = (\<lambda>file_bytes. Inr example_pages),
       page_count = length,
       save_pages = (\<lambda>src_doc from_page to_page. Inl (LibraryError ''cannot save'')) \<rparr>"

section \<open>Truncation of the consolidated context\<close>

text \<open>
  Claim C4. \<^verbatim>\<open>_consolidate_and_truncate\<close> joins the partial results with the separator
  \<^verbatim>\<open>"\n\n"\<close>. While the joined text is at most \<^const>\<open>MAX_CONTEXT_CHARS\<close> (150000) characters
  long it is returned unchanged; a longer one is cut to its first 150000 characters and the
  marker \<^verbatim>\<open>"\n... [TRUNCATED]"\<close> is appended, so the result is 150000 plus the marker's 16
  characters long.
\<close>

theorem consolidate_and_truncate_budget:
  "MAX_CONTEXT_CHARS = 150000 \<and>
   length TRUNCATION_MARKER = 16 \<and>
   (length (str_join [CHR 0x0A, CHR 0x0A] responses) \<le> MAX_CONTEXT_CHARS \<longrightarrow>
      consolidate_and_truncate responses n = str_join [CHR 0x0A, CHR 0x0A] responses) \<and>
   (MAX_CONTEXT_CHARS < length (str_join [CHR 0x0A, CHR 0x0A] responses) \<longrightarrow>
      consolidate_and_truncate responses n =
        take MAX_CONTEXT_CHARS (str_join [CHR 0x0A, CHR 0x0A] responses) @ TRUNCATION_MARKER \<and>
      length (consolidate_and_truncate responses n) =
        MAX_CONTEXT_CHARS + length TRUNCATION_MARKER)"
  by (simp add: consolidate_and_truncate_def MAX_CONTEXT_CHARS_def TRUNCATION_MARKER_def Let_def)

theorem consolidate_and_truncate_budget_witness:
  "length (str_join [CHR 0x0A, CHR 0x0A] [''ab'', ''cd'']) \<le> MAX_CONTEXT_CHARS \<and>
   consolidate_and_truncate [''ab'', ''cd''] 2 = ''ab'' @ [CHR 0x0A, CHR 0x0A] @ ''cd'' \<and>
   MAX_CONTEXT_CHARS < length (str_join [CHR 0x0A, CHR 0x0A] [replicate 150001 CHR ''x'']) \<and>
   consolidate_and_truncate [replicate 150001 CHR ''x''] 1 =
     replicate 150000 CHR ''x'' @ TRUNCATION_MARKER \<and>
   length (consolidate_and_truncate [replicate 150001 CHR ''x''] 1) = 150016"
proof -
  have short: "length (str_join [CHR 0x0A, CHR 0x0A] [''ab'', ''cd'']) \<le> MAX_CONTEXT_CHARS"
    by (simp add: MAX_CONTEXT_CHARS_def)
  have long: "MAX_CONTEXT_CHARS < length (str_join [CHR 0x0A, CHR 0x0A] [replicate 150001 CHR ''x''])"
    by (simp add: MAX_CONTEXT_CHARS_def)
  have cut: "take MAX_CONTEXT_CHARS (str_join [CHR 0x0A, CHR 0x0A] [replicate 150001 CHR ''x''])
      = replicate 150000 CHR ''x''"
    by (simp add: MAX_CONTEXT_CHARS_def)
  from consolidate_and_truncate_budget [of "[''ab'', ''cd'']" 2] short
  have a: "consolidate_and_truncate [''ab'', ''cd''] 2 = ''ab'' @ [CHR 0x0A, CHR 0x0A] @ ''cd''"
    by simp
  from consolidate_and_truncate_budget [of "[replicate 150001 CHR ''x'']" 1] long
  have b: "consolidate_and_truncate [replicate 150001 CHR ''x''] 1 =
        take MAX_CONTEXT_CHARS (str_join [CHR 0x0A, CHR 0x0A] [replicate 150001 CHR ''x''])
          @ TRUNCATION_MARKER"
    and c: "length (consolidate_and_truncate [replicate 150001 CHR ''x''] 1) =
        MAX_CONTEXT_CHARS + length TRUNCATION_MARKER"
    and d: "MAX_CONTEXT_CHARS = 150000" "length TRUNCATION_MARKER = 16"
    by blast+
  from c d have c': "length (consolidate_and_truncate [replicate 150001 CHR ''x''] 1) = 150016"
    by simp
  from b cut have b': "consolidate_and_truncate [replicate 150001 CHR ''x''] 1 =
     replicate 150000 CHR ''x'' @ TRUNCATION_MARKER"
    by (simp only:)
  from short a long b' c' show ?thesis by blast
qed

section \<open>Order of the gathered partial results\<close>

lemma filter_key_distinct:
  assumes "distinct (map f xs)" "k \<in> set xs"
  shows "filter (\<lambda>x. f k = f x) xs = [k]"
  using assms
proof (induction xs)
  case Nil
  then show ?case by simp
next
  case (Cons a xs)
  show ?case
  proof (cases "a = k")
    case True
    with Cons.prems have "f k \<notin> set (map f xs)" by simp
    then have "\<forall>x\<in>set xs. f x \<noteq> f k" by (metis image_eqI set_map)
    then have "filter (\<lambda>x. f k = f x) xs = []" by (auto simp: filter_empty_conv)
    with True show ?thesis by simp
  next
    case False
    with Cons.prems have k: "k \<in> set xs" and "f a \<noteq> f k" by auto
    with Cons show ?thesis by auto
  qed
qed

lemma sort_key_distinct_perm:
  assumes "mset ps = mset qs" "distinct (map f qs)" "sorted (map f qs)"
  shows "sort_key f ps = qs"
proof (rule properties_for_sort_key)
  show "mset qs = mset ps" using assms(1) by simp
  show "sorted (map f qs)" by fact
  fix k assume k: "k \<in> set qs"
  have "mset (map f ps) = mset (map f qs)" using assms(1) by (metis mset_map)
  then have dp: "distinct (map f ps)"
    using assms(2) by (metis mset_eq_imp_distinct_iff)
  have kp: "k \<in> set ps" using k assms(1) by (metis mset_eq_setD)
  show "filter (\<lambda>x. f k = f x) qs = filter (\<lambda>x. f k = f x) ps"
    using filter_key_distinct[OF assms(2) k] filter_key_distinct[OF dp kp] by simp
qed

text \<open>
  \<^verbatim>\<open>enumerate(chunks, 1)\<close> numbers the chunks 1, 2, ...: the sequence numbers of the
  gathered results are distinct, and sorting any arrangement of them gives the texts in
  chunk order.
\<close>

lemma sort_enumerated:
  assumes "mset results = mset (zip [1..<Suc (length texts)] texts)"
  shows "map snd (sort_key fst results) = texts"
proof -
  let ?qs = "zip [1..<Suc (length texts)] texts"
  have keys: "map fst ?qs = [1..<Suc (length texts)]"
    by (simp del: upt_Suc)
  have "sort_key fst results = ?qs"
    by (rule sort_key_distinct_perm[OF assms]) (simp_all only: keys distinct_upt sorted_upt)
  moreover have "map snd ?qs = texts"
    by (simp del: upt_Suc)
  ultimately show ?thesis by (simp only:)
qed

text \<open>
  Claim C3. Two arrangements of the same gathered \<^verbatim>\<open>(chunk_number, response)\<close> pairs, the
  chunk numbers being distinct, give the same consolidated context: the sort on the chunk
  number makes the reduction independent of the order in which the results arrive.
\<close>

theorem consolidated_context_order_independent:
  assumes "mset ps = mset qs" and "distinct (map fst qs)"
  shows "consolidated_context ps n = consolidated_context qs n"
proof -
  have "mset (sort_key fst qs) = mset qs" by simp
  with assms(1) have m: "mset ps = mset (sort_key fst qs)" by simp
  have "mset (map fst (sort_key fst qs)) = mset (map fst qs)" by (metis mset_map mset_sort)
  with assms(2) have d: "distinct (map fst (sort_key fst qs))"
    by (metis mset_eq_imp_distinct_iff)
  have "sort_key fst ps = sort_key fst qs"
    by (rule sort_key_distinct_perm[OF m d]) simp
  then show ?thesis by (simp only: consolidated_context_def)
qed

theorem consolidated_context_order_independent_witness:
  "mset [(2, ''b''), (3, ''c''), (1::nat, ''a'')] = mset [(1, ''a''), (2, ''b''), (3, ''c'')] \<and>
   distinct (map fst [(1::nat, ''a''), (2, ''b''), (3, ''c'')]) \<and>
   consolidated_context [(2, ''b''), (3, ''c''), (1, ''a'')] 3 =
     consolidated_context [(1, ''a''), (2, ''b''), (3, ''c'')] 3 \<and>
   consolidated_context [(1, ''a''), (2, ''b''), (3, ''c'')] 3 =
     ''a'' @ [CHR 0x0A, CHR 0x0A] @ ''b'' @ [CHR 0x0A, CHR 0x0A] @ ''c''"
proof -
  have h: "mset [(2, ''b''), (3, ''c''), (1::nat, ''a'')] = mset [(1, ''a''), (2, ''b''), (3, ''c'')]"
    by simp
  have d: "distinct (map fst [(1::nat, ''a''), (2, ''b''), (3, ''c'')])"
    by simp
  have v: "consolidated_context [(1, ''a''), (2, ''b''), (3, ''c'')] 3 =
     ''a'' @ [CHR 0x0A, CHR 0x0A] @ ''b'' @ [CHR 0x0A, CHR 0x0A] @ ''c''"
    by (simp add: consolidated_context_def consolidate_and_truncate_def MAX_CONTEXT_CHARS_def)
  from consolidated_context_order_independent[OF h d, of 3] h d v show ?thesis by blast
qed

section \<open>Display names\<close>

lemma rstrip_Nil [simp]: "rstrip [] = []" by (simp add: rstrip_def)

lemma rstrip_append:
  "rstrip (xs @ ys) = (if list_all is_space ys then rstrip xs else xs @ rstrip ys)"
  by (auto simp: rstrip_def dropWhile_append list_all_iff)

lemma rstrip_no_space: "xs \<noteq> [] \<Longrightarrow> \<not> is_space (last xs) \<Longrightarrow> rstrip xs = xs"
  by (cases xs rule: rev_cases) (auto simp: rstrip_def)

lemma strip_rstrip: "strip s = rstrip (dropWhile is_space s)"
  by (simp add: strip_def rstrip_def)

lemma collapse_word:
  "\<not> is_space c \<Longrightarrow>
   collapse_spaces (c # cs) =
     (c # takeWhile (\<lambda>x. \<not> is_space x) cs) @ collapse_spaces (dropWhile (\<lambda>x. \<not> is_space x) cs)"
  by (induction cs arbitrary: c) auto

lemma collapse_Nil_iff: "collapse_spaces s = [] \<longleftrightarrow> s = []"
  by (cases s) auto

lemma hd_collapse: "s \<noteq> [] \<Longrightarrow> \<not> is_space (hd s) \<Longrightarrow> hd (collapse_spaces s) = hd s"
  by (cases s) auto

lemma dropWhile_collapse:
  "dropWhile is_space (collapse_spaces s) = collapse_spaces (dropWhile is_space s)"
proof (cases s)
  case Nil
  then show ?thesis by simp
next
  case (Cons c cs)
  have sp: "is_space CHR '' ''" by (simp add: is_space_def ord_def)
  have start: "dropWhile is_space (collapse_spaces u) = collapse_spaces u"
    if "u = [] \<or> \<not> is_space (hd u)" for u
    using that by (cases u) auto
  show ?thesis
  proof (cases "is_space c")
    case True
    have "dropWhile is_space cs = [] \<or> \<not> is_space (hd (dropWhile is_space cs))"
      by (metis hd_dropWhile)
    from start[OF this] True Cons sp show ?thesis by simp
  next
    case False
    with Cons show ?thesis by simp
  qed
qed

lemma str_join_Cons: "ys \<noteq> [] \<Longrightarrow> str_join sep (x # ys) = x @ sep @ str_join sep ys"
  by (cases ys) auto

lemma rstrip_collapse:
  "rstrip (collapse_spaces (dropWhile is_space s)) = str_join '' '' (split_words s)"
proof (induction s rule: split_words.induct)
  case (1 s)
  show ?case
  proof (cases "dropWhile is_space s")
    case Nil
    have "split_words s = []" by (subst split_words.simps) (simp only: Nil list.case)
    then show ?thesis by (simp only: Nil collapse_spaces.simps rstrip_Nil str_join.simps)
  next
    case (Cons c cs)
    let ?w = "c # takeWhile (\<lambda>x. \<not> is_space x) cs"
    let ?rest = "dropWhile (\<lambda>x. \<not> is_space x) cs"
    have nc: "\<not> is_space c" using Cons by (metis hd_dropWhile list.sel(1) list.distinct(1))
    have ws: "split_words s = ?w # split_words ?rest"
      by (subst split_words.simps) (simp only: Cons list.case)
    have col: "collapse_spaces (c # cs) = ?w @ collapse_spaces ?rest"
      by (rule collapse_word[OF nc])
    have IH: "rstrip (collapse_spaces (dropWhile is_space ?rest)) = str_join '' '' (split_words ?rest)"
      by (rule 1[OF Cons])
    have lastw: "\<not> is_space (last ?w)"
      using nc by (metis (mono_tags, lifting) last_in_set list.distinct(1) set_ConsD set_takeWhileD)
    show ?thesis
    proof (cases "?rest")
      case Nil
      have "split_words ?rest = []"
        by (subst split_words.simps) (simp only: Nil dropWhile.simps list.case)
      with Nil ws col rstrip_no_space[OF _ lastw] show ?thesis
        by (simp only: Cons) simp
    next
      case rest: (Cons d rest')
      have sd: "is_space d" using rest by (metis hd_dropWhile list.sel(1) list.distinct(1))
      let ?X = "collapse_spaces (dropWhile is_space rest')"
      have dr: "dropWhile is_space ?rest = dropWhile is_space rest'" using rest sd by simp
      have cr: "collapse_spaces ?rest = CHR '' '' # ?X" using rest sd by simp
      have sp: "is_space CHR '' ''" by (simp add: is_space_def ord_def)
      show ?thesis
      proof (cases "dropWhile is_space rest' = []")
        case True
        have "split_words ?rest = []"
          by (subst split_words.simps) (simp only: dr True list.case)
        moreover have "rstrip (?w @ [CHR '' '']) = ?w"
          using rstrip_append[of ?w "[CHR '' '']"] rstrip_no_space[OF _ lastw] sp by simp
        ultimately show ?thesis using ws col cr
          by (simp only: Cons True collapse_spaces.simps) simp
      next
        case False
        then have Xhd: "\<not> is_space (hd ?X)" and Xne: "?X \<noteq> []"
          by (metis hd_collapse hd_dropWhile, simp add: collapse_Nil_iff)
        then have nall: "\<not> list_all is_space (CHR '' '' # ?X)"
          by (cases ?X) auto
        have wne: "split_words ?rest \<noteq> []"
          using False by (subst split_words.simps) (simp only: dr split: list.split, simp)
        have a: "rstrip (?w @ CHR '' '' # ?X) = ?w @ rstrip (CHR '' '' # ?X)"
          by (simp only: rstrip_append nall if_False)
        have b: "rstrip (CHR '' '' # ?X) = CHR '' '' # rstrip ?X"
          using rstrip_append[of "[CHR '' '']" ?X] Xhd Xne by (cases ?X) auto
        have c: "rstrip ?X = str_join '' '' (split_words ?rest)"
          using IH by (simp only: dr)
        have "rstrip (collapse_spaces (dropWhile is_space s)) = rstrip (?w @ CHR '' '' # ?X)"
          by (simp only: Cons col cr)
        also have "\<dots> = ?w @ '' '' @ str_join '' '' (split_words ?rest)"
          by (simp only: a b c) simp
        also have "\<dots> = str_join '' '' (split_words s)"
          by (simp only: ws str_join_Cons[OF wne])
        finally show ?thesis .
      qed
    qed
  qed
qed

lemma strip_collapse: "strip (collapse_spaces s) = str_join '' '' (split_words s)"
  by (simp add: strip_rstrip dropWhile_collapse rstrip_collapse)

text \<open>
  Claim C9, as the code has it. \<^verbatim>\<open>sanitize_filename\<close> turns underscores and periods into
  spaces, removes every character outside \<^verbatim>\<open>[a-zA-Z0-9\s\-()[\]]\<close>, and joins what is left
  between whitespace with single spaces: a whitespace character of the input (a tab, a line
  feed) is in the kept class \<^verbatim>\<open>\s\<close>, so it separates two words and comes out as one space.
  The result has no leading or trailing space and no two spaces in a row, since it is a
  \<^verbatim>\<open>' '.join\<close> of non-empty words.
\<close>

theorem sanitize_filename_words:
  "sanitize_filename name =
     str_join '' '' (split_words (filter kept_char
        (replace_char CHR ''.'' CHR '' '' (replace_char CHR ''_'' CHR '' '' name))))"
  by (simp add: sanitize_filename_def strip_collapse)

text \<open>
  The claim as stated says that a tab is removed. It is kept by the second step and turned
  into a space by the third: \<^verbatim>\<open>sanitize_filename("a\tb")\<close> is \<^verbatim>\<open>"a b"\<close>, not \<^verbatim>\<open>"ab"\<close>.
\<close>

theorem sanitize_filename_tab_counterexample:
  "sanitize_filename [CHR ''a'', CHR 0x09, CHR ''b''] = ''a b'' \<and>
   sanitize_filename [CHR ''a'', CHR 0x09, CHR ''b''] \<noteq> ''ab''"
  by (simp add: sanitize_filename_def replace_char_def kept_char_def is_space_def ord_def
      strip_def)

section \<open>The adaptive batch search of the paged splitter\<close>

lemma bit_length_bounds:
  "0 < n \<Longrightarrow> 2 ^ (bit_length n - 1) \<le> n \<and> n < 2 ^ bit_length n"
proof (induction n rule: bit_length.induct)
  case (1 n)
  show ?case
  proof (cases "n div 2 = 0")
    case True
    with 1(2) have "n = Suc 0" by (auto simp: div_eq_0_iff)
    then show ?thesis by (simp add: bit_length.simps[of "Suc 0"] bit_length.simps[of 0])
  next
    case False
    then have pos: "0 < n div 2" by simp
    from 1(1)[OF _ pos] 1(2)
    have IH: "2 ^ (bit_length (n div 2) - 1) \<le> n div 2" "n div 2 < 2 ^ bit_length (n div 2)"
      by auto
    have bl: "bit_length n = Suc (bit_length (n div 2))"
      using 1(2) by (subst bit_length.simps) simp
    have blpos: "0 < bit_length (n div 2)"
      using pos by (subst bit_length.simps) simp
    from IH(1) have "2 * 2 ^ (bit_length (n div 2) - 1) \<le> n" by linarith
    moreover have "2 * 2 ^ (bit_length (n div 2) - 1) = (2::nat) ^ bit_length (n div 2)"
      using blpos by (cases "bit_length (n div 2)") auto
    moreover from IH(2) have "n < 2 * 2 ^ bit_length (n div 2)" by linarith
    ultimately show ?thesis by (simp add: bl)
  qed
qed

lemma fl_round_lower:
  assumes "2 ^ j \<le> m" and "fl_round (m, e) = (q, e')"
  shows "e \<le> e' \<and> 2 ^ j \<le> q * 2 ^ nat (e' - e)"
proof (cases "m < 2 ^ 53")
  case True
  with assms show ?thesis by (simp add: fl_round_def)
next
  case False
  define k where "k = bit_length m - 53"
  define q0 where "q0 = m div 2 ^ k"
  have mpos: "0 < m" using False by (cases m) auto
  from bit_length_bounds[OF mpos]
  have lo: "2 ^ (bit_length m - 1) \<le> m" and hi: "m < 2 ^ bit_length m" by auto
  have bl: "53 < bit_length m"
  proof (rule ccontr)
    assume "\<not> 53 < bit_length m"
    then have "bit_length m \<le> 53" by simp
    then have "(2::nat) ^ bit_length m \<le> 2 ^ 53" by (rule power_increasing) simp
    with hi False show False by linarith
  qed
  have q: "q0 \<le> q" and e': "e' = e + int k"
    using assms(2) False by (auto simp: fl_round_def Let_def k_def q0_def split: if_splits)
  have "bit_length m - 1 = 52 + k" using bl by (simp add: k_def)
  with lo have "2 ^ 52 * 2 ^ k \<le> m" by (simp add: power_add)
  then have "2 ^ 52 \<le> q0" by (simp add: q0_def less_eq_div_iff_mult_less_eq)
  then have "2 ^ 52 * 2 ^ k \<le> q * 2 ^ k" using q by simp
  then have big: "2 ^ (bit_length m - 1) \<le> q * 2 ^ k"
    using \<open>bit_length m - 1 = 52 + k\<close> by (simp add: power_add)
  have "(2::nat) ^ j < 2 ^ bit_length m" using assms(1) hi by linarith
  then have "j < bit_length m" by (rule power_less_imp_less_exp[rotated]) simp
  then have "(2::nat) ^ j \<le> 2 ^ (bit_length m - 1)" by (intro power_increasing) simp_all
  from order_trans[OF this big] e' show ?thesis by simp
qed

lemma grow_ge1:
  assumes "1 \<le> b"
  shows "1 \<le> fl_trunc (fl_mul (fl_of_nat b) fl_1_5)"
proof -
  obtain m1 e1 where f1: "fl_round (b, 0) = (m1, e1)" by (cases "fl_round (b, 0)")
  from assms have "2 ^ 0 \<le> b" by simp
  from fl_round_lower[OF this f1] have e1: "0 \<le> e1" and m1: "1 \<le> m1 * 2 ^ nat e1" by auto
  then have m1pos: "1 \<le> m1" by (cases m1) auto
  obtain q e' where f2: "fl_round (m1 * 3, e1 - 1) = (q, e')" by (cases "fl_round (m1 * 3, e1 - 1)")
  have "2 ^ 1 \<le> m1 * 3" using m1pos by simp
  from fl_round_lower[OF this f2]
  have e': "e1 - 1 \<le> e'" and q: "2 \<le> q * 2 ^ nat (e' - (e1 - 1))" by auto
  have qpos: "1 \<le> q" using q by (cases q) auto
  have tr: "fl_trunc (fl_mul (fl_of_nat b) fl_1_5) = fl_trunc (q, e')"
    by (simp add: fl_mul_def fl_of_nat_def fl_1_5_def f1 f2)
  show ?thesis
  proof (cases "0 \<le> e'")
    case True
    then show ?thesis unfolding tr using qpos by (simp add: fl_trunc_def)
  next
    case False
    with e' e1 have "e' = -1" "e1 = 0" by auto
    with q have "2 \<le> q" by simp
    then show ?thesis unfolding tr using \<open>e' = -1\<close> by (simp add: fl_trunc_def)
  qed
qed

lemma next_batch_size_ge1: "1 \<le> b \<Longrightarrow> 1 \<le> next_batch_size b sz"
  using grow_ge1[of b] by (simp add: next_batch_size_def)

lemma reduced_batch_size_ge1: "1 \<le> reduced_batch_size b"
  by (simp add: reduced_batch_size_def Let_def)

lemma reduced_batch_size_less: "1 < b \<Longrightarrow> reduced_batch_size b < b"
  by (auto simp: reduced_batch_size_def Let_def)

lemma split_loop_returns:
  "1 \<le> b \<Longrightarrow> \<exists>r. split_loop lib doc total_pages current_page b chunks = Some r"
proof (induction "total_pages - current_page" arbitrary: current_page b chunks rule: less_induct)
  case outer: less
  show ?case using outer.prems
  proof (induction b arbitrary: chunks rule: less_induct)
    case (less b)
    show ?case
    proof (cases "current_page < total_pages")
      case False
      then show ?thesis by (subst split_loop.simps) simp
    next
      case True
      let ?end = "min (current_page + b) total_pages"
      show ?thesis
      proof (cases "save_pages lib doc current_page (int ?end - 1)")
        case (Inl e)
        then show ?thesis using True by (subst split_loop.simps) (simp add: Let_def)
      next
        case (Inr chunk_data)
        show ?thesis
        proof (cases "length chunk_data \<le> TARGET_LIMIT_BYTES \<or> b = 1")
          case accept: True
          have "total_pages - ?end < total_pages - current_page" using True less.prems by (auto simp: min_def)
          from outer.hyps[OF this next_batch_size_ge1[OF less.prems]]
          obtain r where "split_loop lib doc total_pages ?end
              (next_batch_size b (length chunk_data)) (chunks @ [chunk_data]) = Some r"
            by blast
          then show ?thesis using True Inr accept
            by (subst split_loop.simps) (simp add: Let_def)
        next
          case reject: False
          with less.prems have "1 < b" by simp
          from less.IH[OF reduced_batch_size_less[OF this] reduced_batch_size_ge1]
          obtain r where "split_loop lib doc total_pages current_page (reduced_batch_size b) chunks = Some r"
            by blast
          then show ?thesis using True Inr reject
            by (subst split_loop.simps) (simp add: Let_def)
        qed
      qed
    qed
  qed
qed

lemma split_pdf_returns: "\<exists>r. split_pdf lib file_bytes = Some r"
proof (cases "length file_bytes < TARGET_LIMIT_BYTES")
  case True
  then show ?thesis by (simp add: split_pdf_def)
next
  case big: False
  show ?thesis
  proof (cases "fitz_open lib file_bytes")
    case (Inl e)
    with big show ?thesis by (simp add: split_pdf_def)
  next
    case (Inr src_doc)
    show ?thesis
    proof (cases "page_count lib src_doc = 0")
      case True
      with big Inr show ?thesis by (simp add: split_pdf_def)
    next
      case False
      let ?b = "max 1 (fl_trunc (fl_div (fl_of_nat SOFT_TARGET_BYTES)
                  (fl_div (length file_bytes, 0) (page_count lib src_doc, 0))))"
      have "\<exists>r. split_loop lib src_doc (page_count lib src_doc) 0 ?b [] = Some r"
        by (rule split_loop_returns) simp
      then obtain r where r: "split_loop lib src_doc (page_count lib src_doc) 0 ?b [] = Some r"
        by blast
      show ?thesis
        using big Inr False r by (cases r) (simp_all add: split_pdf_def Let_def)
    qed
  qed
qed


text \<open>The example document: the constants of the run, then the run step by step.\<close>

lemma SOFT_TARGET_BYTES_value: "SOFT_TARGET_BYTES = 3774873"
  by (simp add: SOFT_TARGET_BYTES_def TARGET_LIMIT_BYTES_def fl_trunc_def fl_mul_def fl_of_nat_def
      fl_round_def fl_0_9_def Let_def bit_length.simps)

lemma example_initial_batch:
  "fl_trunc (fl_div (fl_of_nat 3774873) (fl_div (5200000, 0) (3, 0))) = 2"
  by (simp add: fl_trunc_def fl_mul_def fl_of_nat_def fl_div_def
      fl_round_def Let_def bit_length.simps)

lemma reduced_batch_size_2: "reduced_batch_size 2 = 1"
  by (simp add: reduced_batch_size_def fl_trunc_def fl_mul_def fl_of_nat_def
      fl_round_def fl_0_7_def Let_def bit_length.simps)

lemma next_batch_size_1:
  "next_batch_size 1 100000 = 1" "next_batch_size 1 5000000 = 1"
  by (simp_all add: next_batch_size_def SOFT_TARGET_BYTES_value nat_less_fl_def
      nat_greater_fl_def fl_trunc_def fl_mul_def fl_of_nat_def fl_round_def fl_0_5_def fl_0_9_def
      fl_0_95_def fl_1_5_def Let_def bit_length.simps)

lemma next_batch_size_Suc_0:
  "next_batch_size (Suc 0) 100000 = Suc 0" "next_batch_size (Suc 0) 5000000 = Suc 0"
  using next_batch_size_1 by simp_all

lemma example_save_pages_values:
  "example_save_pages example_pages 0 1 = Inr (replicate 5100000 0)"
  "example_save_pages example_pages 0 0 = Inr (replicate 100000 0)"
  "example_save_pages example_pages 1 1 = Inr (replicate 5000000 0)"
  "example_save_pages example_pages 2 2 = Inr (replicate 100000 0)"
  by (simp_all add: example_save_pages_def example_pages_def)

lemma example_save_pages_Suc_0:
  "example_save_pages example_pages (Suc 0) 1 = Inr (replicate 5000000 0)"
  using example_save_pages_values(3) by simp

lemma example_lib_fields:
  "save_pages example_pdf_lib = example_save_pages"
  "page_count example_pdf_lib = length"
  "fitz_open example_pdf_lib example_pdf_file = Inr example_pages"
  "length example_pages = 3"
  "length example_pdf_file = 5200000"
  by (simp_all add: example_pdf_lib_def example_pages_def example_pdf_file_def)

lemma example_step_shrink:
  "split_loop example_pdf_lib example_pages 3 0 2 [] =
   split_loop example_pdf_lib example_pages 3 0 1 []"
  by (subst split_loop.simps)
     (simp add: example_lib_fields example_save_pages_values TARGET_LIMIT_BYTES_def
        reduced_batch_size_2)

lemma example_step_page_0:
  "split_loop example_pdf_lib example_pages 3 0 1 [] =
   split_loop example_pdf_lib example_pages 3 1 1 [replicate 100000 0]"
  by (subst split_loop.simps)
     (simp add: example_lib_fields example_save_pages_values example_save_pages_Suc_0
        next_batch_size_1 next_batch_size_Suc_0)

lemma example_step_page_1:
  "split_loop example_pdf_lib example_pages 3 1 1 [replicate 100000 0] =
   split_loop example_pdf_lib example_pages 3 2 1 [replicate 100000 0, replicate 5000000 0]"
  apply (subst split_loop.simps)
  apply (simp add: example_lib_fields example_save_pages_values example_save_pages_Suc_0
        next_batch_size_1 next_batch_size_Suc_0)
  apply (simp add: numeral_2_eq_2)
  done

lemma example_step_page_2:
  "split_loop example_pdf_lib example_pages 3 2 1 [replicate 100000 0, replicate 5000000 0] =
   split_loop example_pdf_lib example_pages 3 3 1
     [replicate 100000 0, replicate 5000000 0, replicate 100000 0]"
  by (subst split_loop.simps)
     (simp add: example_lib_fields example_save_pages_values example_save_pages_Suc_0
        next_batch_size_1 next_batch_size_Suc_0)

lemma example_step_end:
  "split_loop example_pdf_lib example_pages 3 3 1 chunks = Some (Inr chunks)"
  by (subst split_loop.simps) simp

lemma example_split_loop:
  "split_loop example_pdf_lib example_pages 3 0 (Suc (Suc 0)) [] =
     Some (Inr [replicate 100000 0, replicate 5000000 0, replicate 100000 0])"
proof -
  have "split_loop example_pdf_lib example_pages 3 0 2 [] =
     Some (Inr [replicate 100000 0, replicate 5000000 0, replicate 100000 0])"
    by (simp only: example_step_shrink example_step_page_0 example_step_page_1
        example_step_page_2 example_step_end)
  then show ?thesis
    by (simp add: numeral_2_eq_2)
qed

lemma example_split_pdf:
  "split_pdf example_pdf_lib example_pdf_file =
     Some ([], Inr [replicate 100000 0, replicate 5000000 0, replicate 100000 0])"
  by (simp add: split_pdf_def example_lib_fields TARGET_LIMIT_BYTES_def SOFT_TARGET_BYTES_value
      example_initial_batch example_split_loop)

lemma fl_round_small: "m < 2 ^ 53 \<Longrightarrow> fl_round (m, e) = (m, e)"
  by (simp add: fl_round_def)

lemma fl_round_error:
  assumes big: "\<not> m < 2 ^ 53" and r: "fl_round (m, e) = (q, e')"
  defines "k \<equiv> bit_length m - 53"
  shows "e' = e + int k" and "2 * (q * 2 ^ k) \<le> 2 * m + 2 ^ k"
    and "2 * m \<le> 2 * (q * 2 ^ k) + 2 ^ k" and "1 \<le> k"
proof -
  have mpos: "0 < m" using big by (cases m) auto
  from bit_length_bounds[OF mpos] have hi: "m < 2 ^ bit_length m" by auto
  have bl: "53 < bit_length m"
  proof (rule ccontr)
    assume "\<not> 53 < bit_length m"
    then have "bit_length m \<le> 53" by simp
    then have "(2::nat) ^ bit_length m \<le> 2 ^ 53" by (rule power_increasing) simp
    with hi big show False by linarith
  qed
  then show k1: "1 \<le> k" by (simp add: k_def)
  define q0 where "q0 = m div 2 ^ k"
  define r0 where "r0 = m mod 2 ^ k"
  define h where "h = (2::nat) ^ (k - 1)"
  have hh: "2 * h = 2 ^ k" using k1 by (cases k) (auto simp: h_def)
  have m: "m = q0 * 2 ^ k + r0" unfolding q0_def r0_def by (rule div_mult_mod_eq [symmetric])
  have rlt: "r0 < 2 ^ k" by (simp add: r0_def)
  from r big have e': "e' = e + int k"
    and q: "q = (if h < r0 \<or> (r0 = h \<and> odd q0) then q0 + 1 else q0)"
    by (auto simp: fl_round_def Let_def k_def q0_def r0_def h_def)
  from e' show "e' = e + int k" .
  show "2 * (q * 2 ^ k) \<le> 2 * m + 2 ^ k"
  proof (cases "h < r0 \<or> (r0 = h \<and> odd q0)")
    case True
    then have "q * 2 ^ k = q0 * 2 ^ k + 2 ^ k" using q by (simp add: algebra_simps)
    moreover from True have "h \<le> r0" by auto
    ultimately show ?thesis using m hh by linarith
  next
    case False
    then have "q * 2 ^ k = q0 * 2 ^ k" using q by simp
    then show ?thesis using m by linarith
  qed
  show "2 * m \<le> 2 * (q * 2 ^ k) + 2 ^ k"
  proof (cases "h < r0 \<or> (r0 = h \<and> odd q0)")
    case True
    then have "q * 2 ^ k = q0 * 2 ^ k + 2 ^ k" using q by (simp add: algebra_simps)
    then show ?thesis using m rlt by linarith
  next
    case False
    then have "q * 2 ^ k = q0 * 2 ^ k" using q by simp
    moreover from False have "r0 \<le> h" by auto
    ultimately show ?thesis using m hh by linarith
  qed
qed

lemma fl_0_7_trunc:
  assumes b: "1 < b" "b < 2 ^ 49"
  shows "7 * b div 10 - 1 \<le> fl_trunc (fl_mul (fl_of_nat b) fl_0_7)"
    and "fl_trunc (fl_mul (fl_of_nat b) fl_0_7) \<le> 7 * b div 10"
proof -
  define n where "n = b * 6305039478318694"
  define F where "F = 7 * b div 10"
  have F: "10 * F \<le> 7 * b" "7 * b < 10 * F + 10" by (simp_all add: F_def)
  have p49: "(2::nat) ^ 49 = 562949953421312" by simp
  have p53: "(2::nat) ^ 53 = 9007199254740992" by simp
  have p102: "(2::nat) ^ 102 = 2 ^ 49 * 2 ^ 53" by (simp add: power_add [symmetric])
  have b53: "b < 2 ^ 53" using b(2) by simp
  have of: "fl_of_nat b = (b, 0)"
    unfolding fl_of_nat_def using b53 by (rule fl_round_small)
  have big: "\<not> n < 2 ^ 53" using b(1) by (simp add: n_def)
  obtain q e' where r: "fl_round (n, - 53) = (q, e')" by (cases "fl_round (n, - 53)")
  define k where "k = bit_length n - 53"
  note err = fl_round_error [OF big r, folded k_def]
  have npos: "0 < n" using big by (cases n) auto
  have "n < 2 ^ 49 * 2 ^ 53" using b(2) by (simp add: n_def)
  with bit_length_bounds [OF npos] have "(2::nat) ^ (bit_length n - 1) < 2 ^ 102"
    unfolding p102 by linarith
  then have "bit_length n - 1 < 102" by (rule power_less_imp_less_exp[rotated]) simp
  then have k49: "k \<le> 49" by (simp add: k_def)
  then have pk: "(2::nat) ^ k \<le> 2 ^ 49" by (intro power_increasing) simp_all
  have split53: "(2::nat) ^ 53 = 2 ^ k * 2 ^ (53 - k)"
    using k49 by (simp add: power_add [symmetric])
  have tr: "fl_trunc (fl_mul (fl_of_nat b) fl_0_7) = q div 2 ^ (53 - k)"
    using err(1) k49 by (simp add: fl_mul_def of fl_0_7_def r fl_trunc_def n_def [symmetric] nat_diff_distrib')
  have X: "q div 2 ^ (53 - k) = (q * 2 ^ k) div 2 ^ 53"
    unfolding split53 by simp
  define X where "X = q * 2 ^ k"
  have n10: "10 * n + 4 * b = 7 * b * 2 ^ 53" by (simp add: n_def)
  have e1: "2 * X \<le> 2 * n + 2 ^ 49" using err(2) pk by (simp add: X_def)
  have e2: "2 * n \<le> 2 * X + 2 ^ 49" using err(3) pk by (simp add: X_def)
  have up: "X < (F + 1) * 2 ^ 53"
    using e1 n10 F unfolding p49 p53 by (simp add: algebra_simps)
  have lo: "(F - 1) * 2 ^ 53 \<le> X"
    using e2 n10 F b(2) unfolding p49 p53 by (simp add: algebra_simps diff_mult_distrib)
  from up have "X div 2 ^ 53 < F + 1" by (simp add: div_less_iff_less_mult)
  then show "fl_trunc (fl_mul (fl_of_nat b) fl_0_7) \<le> 7 * b div 10"
    by (simp add: tr X X_def F_def)
  from lo have "F - 1 \<le> X div 2 ^ 53" by (simp add: less_eq_div_iff_mult_less_eq)
  then show "7 * b div 10 - 1 \<le> fl_trunc (fl_mul (fl_of_nat b) fl_0_7)"
    by (simp add: tr X X_def F_def)
qed

lemma reduced_batch_size_bounds:
  assumes "1 < b" "b < 2 ^ 49"
  shows "7 * b div 10 - 1 \<le> reduced_batch_size b \<and> reduced_batch_size b \<le> 7 * b div 10"
proof -
  define t where "t = fl_trunc (fl_mul (fl_of_nat b) fl_0_7)"
  from fl_0_7_trunc [OF assms] have t: "7 * b div 10 - 1 \<le> t" "t \<le> 7 * b div 10"
    by (simp_all add: t_def)
  have "7 * b div 10 < b" using assms(1) by simp
  with t have lt: "t < b" by simp
  have "1 \<le> 7 * b div 10" using assms(1) by simp
  have "reduced_batch_size b = max 1 t"
    using lt by (simp add: reduced_batch_size_def Let_def t_def [symmetric] max_def)
  with t \<open>1 \<le> 7 * b div 10\<close> show ?thesis by (simp add: max_def)
qed

lemma split_loop_exit:
  "\<not> current_page < total_pages \<Longrightarrow>
   split_loop lib src_doc total_pages current_page b chunks = Some (Inr chunks)"
  by (subst split_loop.simps) simp

lemma split_loop_error:
  "current_page < total_pages \<Longrightarrow>
   save_pages lib src_doc current_page (int (min (current_page + b) total_pages) - 1) = Inl e \<Longrightarrow>
   split_loop lib src_doc total_pages current_page b chunks = Some (Inl e)"
  by (subst split_loop.simps) (simp add: Let_def)

lemma split_loop_retry:
  "current_page < total_pages \<Longrightarrow>
   save_pages lib src_doc current_page (int (min (current_page + b) total_pages) - 1) =
     Inr chunk_data \<Longrightarrow>
   TARGET_LIMIT_BYTES < length chunk_data \<Longrightarrow> b \<noteq> 1 \<Longrightarrow>
   split_loop lib src_doc total_pages current_page b chunks =
   split_loop lib src_doc total_pages current_page (reduced_batch_size b) chunks"
  by (subst split_loop.simps) (simp add: Let_def)

lemma split_loop_accept:
  "current_page < total_pages \<Longrightarrow>
   save_pages lib src_doc current_page (int (min (current_page + b) total_pages) - 1) =
     Inr chunk_data \<Longrightarrow>
   length chunk_data \<le> TARGET_LIMIT_BYTES \<or> b = 1 \<Longrightarrow>
   split_loop lib src_doc total_pages current_page b chunks =
   split_loop lib src_doc total_pages (min (current_page + b) total_pages)
     (next_batch_size b (length chunk_data)) (chunks @ [chunk_data])"
  by (subst split_loop.simps) (simp add: Let_def)

lemma split_loop_result:
  "1 \<le> b \<Longrightarrow> current_page \<le> total_pages \<Longrightarrow>
   (\<exists>e. split_loop lib src_doc total_pages current_page b chunks = Some (Inl e)) \<or>
   (\<exists>ends cs. split_loop lib src_doc total_pages current_page b chunks = Some (Inr (chunks @ cs)) \<and>
      page_ranges lib src_doc current_page ends cs \<and> last (current_page # ends) = total_pages)"
proof (induction "total_pages - current_page" arbitrary: current_page b chunks rule: less_induct)
  case outer: less
  from outer.prems(2) have le: "current_page \<le> total_pages" .
  show ?case using outer.prems(1)
  proof (induction b arbitrary: chunks rule: less_induct)
    case (less b)
    show ?case
    proof (cases "current_page < total_pages")
      case False
      with le have eq: "current_page = total_pages" by simp
      have "split_loop lib src_doc total_pages current_page b chunks = Some (Inr (chunks @ []))"
        using split_loop_exit [OF False] by simp
      moreover have "page_ranges lib src_doc current_page [] []" by simp
      moreover have "last (current_page # []) = total_pages" using eq by simp
      ultimately show ?thesis by blast
    next
      case True
      let ?end = "min (current_page + b) total_pages"
      show ?thesis
      proof (cases "save_pages lib src_doc current_page (int ?end - 1)")
        case (Inl e)
        from split_loop_error [OF True Inl] show ?thesis by blast
      next
        case (Inr chunk_data)
        show ?thesis
        proof (cases "length chunk_data \<le> TARGET_LIMIT_BYTES \<or> b = 1")
          case accept: True
          note step = split_loop_accept [OF True Inr accept, of chunks]
          have adv: "current_page < ?end" using True less.prems by (auto simp: min_def)
          have dec: "total_pages - ?end < total_pages - current_page"
            using True less.prems by (auto simp: min_def)
          have within: "?end \<le> total_pages" by simp
          from outer.hyps [OF dec next_batch_size_ge1 [OF less.prems] within,
              of "length chunk_data" "chunks @ [chunk_data]"]
          show ?thesis
          proof
            assume "\<exists>e. split_loop lib src_doc total_pages ?end
              (next_batch_size b (length chunk_data)) (chunks @ [chunk_data]) = Some (Inl e)"
            with step show ?thesis by simp
          next
            assume "\<exists>ends cs. split_loop lib src_doc total_pages ?end
                (next_batch_size b (length chunk_data)) (chunks @ [chunk_data]) =
                  Some (Inr ((chunks @ [chunk_data]) @ cs)) \<and>
                page_ranges lib src_doc ?end ends cs \<and> last (?end # ends) = total_pages"
            then obtain ends cs where rest:
              "split_loop lib src_doc total_pages ?end
                (next_batch_size b (length chunk_data)) (chunks @ [chunk_data]) =
                  Some (Inr ((chunks @ [chunk_data]) @ cs))"
              "page_ranges lib src_doc ?end ends cs" "last (?end # ends) = total_pages"
              by blast
            have one: "length chunk_data \<le> TARGET_LIMIT_BYTES \<or> ?end = current_page + 1"
              using accept True by (auto simp: min_def)
            have a: "split_loop lib src_doc total_pages current_page b chunks =
                Some (Inr (chunks @ (chunk_data # cs)))"
              using step rest(1) by simp
            have b: "page_ranges lib src_doc current_page (?end # ends) (chunk_data # cs)"
              using adv Inr one rest(2) by simp
            have c: "last (current_page # ?end # ends) = total_pages"
              using rest(3) by simp
            from a b c show ?thesis by blast
          qed
        next
          case reject: False
          with less.prems have "1 < b" by simp
          from reject have over: "TARGET_LIMIT_BYTES < length chunk_data" and "b \<noteq> 1" by simp_all
          note step = split_loop_retry [OF True Inr over \<open>b \<noteq> 1\<close>, of chunks]
          from less.IH [OF reduced_batch_size_less [OF \<open>1 < b\<close>] reduced_batch_size_ge1, of chunks]
          show ?thesis unfolding step .
        qed
      qed
    qed
  qed
qed

lemma split_pdf_result:
  assumes big: "TARGET_LIMIT_BYTES \<le> length file_bytes"
    and opened: "fitz_open lib file_bytes = Inr src_doc"
  shows "(\<exists>e. split_pdf lib file_bytes = Some ([LogException e], Inl (PDFSplitError e))) \<or>
    (\<exists>ends cs. split_pdf lib file_bytes = Some ([], Inr cs) \<and>
       page_ranges lib src_doc 0 ends cs \<and> last (0 # ends) = page_count lib src_doc)"
proof (cases "page_count lib src_doc = 0")
  case True
  with big opened have "split_pdf lib file_bytes = Some ([], Inr [])"
    by (simp add: split_pdf_def)
  moreover have "page_ranges lib src_doc 0 [] []" by simp
  moreover have "last (0 # []) = page_count lib src_doc" using True by simp
  ultimately show ?thesis by blast
next
  case False
  define b where "b = max 1 (fl_trunc (fl_div (fl_of_nat SOFT_TARGET_BYTES)
              (fl_div (length file_bytes, 0) (page_count lib src_doc, 0))))"
  have pdf: "split_pdf lib file_bytes =
    (case split_loop lib src_doc (page_count lib src_doc) 0 b [] of
       None \<Rightarrow> None
     | Some (Inl e) \<Rightarrow> Some ([LogException e], Inl (PDFSplitError e))
     | Some (Inr chunks) \<Rightarrow> Some ([], Inr chunks))"
    unfolding split_pdf_def b_def using big opened False by (simp add: Let_def)
  have b1: "1 \<le> b" by (simp add: b_def)
  have le: "0 \<le> page_count lib src_doc" by simp
  from split_loop_result [OF b1 le, where lib = lib and src_doc = src_doc and chunks = "[]"]
  show ?thesis
  proof
    assume "\<exists>e. split_loop lib src_doc (page_count lib src_doc) 0 b [] = Some (Inl e)"
    then obtain e where "split_loop lib src_doc (page_count lib src_doc) 0 b [] = Some (Inl e)"
      by blast
    then have "split_pdf lib file_bytes = Some ([LogException e], Inl (PDFSplitError e))"
      unfolding pdf by simp
    then show ?thesis by blast
  next
    assume "\<exists>ends cs. split_loop lib src_doc (page_count lib src_doc) 0 b [] =
        Some (Inr ([] @ cs)) \<and>
      page_ranges lib src_doc 0 ends cs \<and> last (0 # ends) = page_count lib src_doc"
    then obtain ends cs where loop:
      "split_loop lib src_doc (page_count lib src_doc) 0 b [] = Some (Inr cs)"
      and rest: "page_ranges lib src_doc 0 ends cs" "last (0 # ends) = page_count lib src_doc"
      by auto
    from loop have "split_pdf lib file_bytes = Some ([], Inr cs)"
      unfolding pdf by simp
    with rest show ?thesis by blast
  qed
qed

lemma reduced_batch_size_1: "reduced_batch_size 1 = 1"
  by (simp add: reduced_batch_size_def fl_trunc_def fl_mul_def fl_of_nat_def
      fl_round_def fl_0_7_def Let_def bit_length.simps)

lemma reduced_batch_size_90: "reduced_batch_size 90 = 62"
  by (simp add: reduced_batch_size_def fl_trunc_def fl_mul_def fl_of_nat_def
      fl_round_def fl_0_7_def Let_def bit_length.simps)

text \<open>
  Claim C7. The adaptive batch search of the paged splitter terminates, and it ends with every
  page consumed.

  \<^item> The shrink step: a batch size above 1 becomes a size that is at least 1 and strictly
    smaller; below \<open>2 ^ 49\<close> it is seven tenths of the size rounded down, or one less
    (the product is a binary64 product), and 1 stays 1.
  \<^item> The loop: with no page left it returns the chunks it has; a batch that cannot be saved
    ends it with the error; a saved batch over the hard limit whose size is not 1 is tried
    again from the same page with the shrunk size; a saved batch within the limit, or of
    size 1 whatever it weighs, is appended and the cursor moves to the end of the batch.
  \<^item> The size chosen after an accepted batch is at least 1.
  \<^item> So, from a batch size of at least 1, the loop returns: either the error of a save, or
    the chunks it had followed by the chunks of consecutive, non-empty page ranges that start
    at the cursor and end at the last page, each within the limit or a single page.
  \<^item> \<open>split_pdf\<close> returns on every input, and on an input that is not under the limit and
    opens, it raises the typed error or returns such chunks for the pages from 0 on.
\<close>

theorem split_pdf_batch_search_terminates:
  "(1 < b \<longrightarrow> 1 \<le> reduced_batch_size b \<and> reduced_batch_size b < b) \<and>
   (1 < b \<and> b < 2 ^ 49 \<longrightarrow>
      7 * b div 10 - 1 \<le> reduced_batch_size b \<and> reduced_batch_size b \<le> 7 * b div 10) \<and>
   reduced_batch_size 1 = 1 \<and>
   (\<not> current_page < total_pages \<longrightarrow>
      split_loop lib src_doc total_pages current_page b chunks = Some (Inr chunks)) \<and>
   (current_page < total_pages \<and>
    save_pages lib src_doc current_page (int (min (current_page + b) total_pages) - 1) = Inl e \<longrightarrow>
      split_loop lib src_doc total_pages current_page b chunks = Some (Inl e)) \<and>
   (current_page < total_pages \<and>
    save_pages lib src_doc current_page (int (min (current_page + b) total_pages) - 1) =
      Inr chunk_data \<and>
    TARGET_LIMIT_BYTES < length chunk_data \<and> b \<noteq> 1 \<longrightarrow>
      split_loop lib src_doc total_pages current_page b chunks =
      split_loop lib src_doc total_pages current_page (reduced_batch_size b) chunks) \<and>
   (current_page < total_pages \<and>
    save_pages lib src_doc current_page (int (min (current_page + b) total_pages) - 1) =
      Inr chunk_data \<and>
    (length chunk_data \<le> TARGET_LIMIT_BYTES \<or> b = 1) \<longrightarrow>
      split_loop lib src_doc total_pages current_page b chunks =
      split_loop lib src_doc total_pages (min (current_page + b) total_pages)
        (next_batch_size b (length chunk_data)) (chunks @ [chunk_data])) \<and>
   (1 \<le> b \<longrightarrow> 1 \<le> next_batch_size b current_size) \<and>
   (1 \<le> b \<longrightarrow> (\<exists>r. split_loop lib src_doc total_pages current_page b chunks = Some r)) \<and>
   (1 \<le> b \<and> current_page \<le> total_pages \<longrightarrow>
      (\<exists>e. split_loop lib src_doc total_pages current_page b chunks = Some (Inl e)) \<or>
      (\<exists>ends cs.
          split_loop lib src_doc total_pages current_page b chunks = Some (Inr (chunks @ cs)) \<and>
          page_ranges lib src_doc current_page ends cs \<and>
          last (current_page # ends) = total_pages)) \<and>
   (\<exists>r. split_pdf lib file_bytes = Some r) \<and>
   (TARGET_LIMIT_BYTES \<le> length file_bytes \<and> fitz_open lib file_bytes = Inr src_doc \<longrightarrow>
      (\<exists>e. split_pdf lib file_bytes = Some ([LogException e], Inl (PDFSplitError e))) \<or>
      (\<exists>ends cs. split_pdf lib file_bytes = Some ([], Inr cs) \<and>
          page_ranges lib src_doc 0 ends cs \<and> last (0 # ends) = page_count lib src_doc))"
proof -
  have shrink: "1 < b \<longrightarrow> 1 \<le> reduced_batch_size b \<and> reduced_batch_size b < b"
    using reduced_batch_size_ge1 [of b] reduced_batch_size_less [of b] by simp
  have factor: "1 < b \<and> b < 2 ^ 49 \<longrightarrow>
      7 * b div 10 - 1 \<le> reduced_batch_size b \<and> reduced_batch_size b \<le> 7 * b div 10"
    using reduced_batch_size_bounds [of b] by blast
  have one: "reduced_batch_size 1 = 1"
    by (rule reduced_batch_size_1)
  have exit: "\<not> current_page < total_pages \<longrightarrow>
      split_loop lib src_doc total_pages current_page b chunks = Some (Inr chunks)"
    using split_loop_exit [of current_page total_pages lib src_doc b chunks] by blast
  have error: "current_page < total_pages \<and>
    save_pages lib src_doc current_page (int (min (current_page + b) total_pages) - 1) = Inl e \<longrightarrow>
      split_loop lib src_doc total_pages current_page b chunks = Some (Inl e)"
    using split_loop_error [of current_page total_pages lib src_doc b e chunks] by blast
  have retry: "current_page < total_pages \<and>
    save_pages lib src_doc current_page (int (min (current_page + b) total_pages) - 1) =
      Inr chunk_data \<and>
    TARGET_LIMIT_BYTES < length chunk_data \<and> b \<noteq> 1 \<longrightarrow>
      split_loop lib src_doc total_pages current_page b chunks =
      split_loop lib src_doc total_pages current_page (reduced_batch_size b) chunks"
    using split_loop_retry [of current_page total_pages lib src_doc b chunk_data chunks] by blast
  have accept: "current_page < total_pages \<and>
    save_pages lib src_doc current_page (int (min (current_page + b) total_pages) - 1) =
      Inr chunk_data \<and>
    (length chunk_data \<le> TARGET_LIMIT_BYTES \<or> b = 1) \<longrightarrow>
      split_loop lib src_doc total_pages current_page b chunks =
      split_loop lib src_doc total_pages (min (current_page + b) total_pages)
        (next_batch_size b (length chunk_data)) (chunks @ [chunk_data])"
    using split_loop_accept [of current_page total_pages lib src_doc b chunk_data chunks] by blast
  have grow: "1 \<le> b \<longrightarrow> 1 \<le> next_batch_size b current_size"
    using next_batch_size_ge1 [of b current_size] by simp
  have loop: "1 \<le> b \<longrightarrow>
      (\<exists>r. split_loop lib src_doc total_pages current_page b chunks = Some r)"
    using split_loop_returns [of b lib src_doc total_pages current_page chunks] by simp
  have covers: "1 \<le> b \<and> current_page \<le> total_pages \<longrightarrow>
      (\<exists>e. split_loop lib src_doc total_pages current_page b chunks = Some (Inl e)) \<or>
      (\<exists>ends cs.
          split_loop lib src_doc total_pages current_page b chunks = Some (Inr (chunks @ cs)) \<and>
          page_ranges lib src_doc current_page ends cs \<and>
          last (current_page # ends) = total_pages)"
    using split_loop_result [of b current_page total_pages lib src_doc chunks] by blast
  have whole: "\<exists>r. split_pdf lib file_bytes = Some r"
    by (rule split_pdf_returns)
  have pages: "TARGET_LIMIT_BYTES \<le> length file_bytes \<and> fitz_open lib file_bytes = Inr src_doc \<longrightarrow>
      (\<exists>e. split_pdf lib file_bytes = Some ([LogException e], Inl (PDFSplitError e))) \<or>
      (\<exists>ends cs. split_pdf lib file_bytes = Some ([], Inr cs) \<and>
          page_ranges lib src_doc 0 ends cs \<and> last (0 # ends) = page_count lib src_doc)"
    using split_pdf_result [of file_bytes lib src_doc] by blast
  from shrink factor one exit error retry accept grow loop covers whole pages show ?thesis
    by (intro conjI)
qed

theorem split_pdf_batch_search_terminates_witness:
  "(1 \<le> reduced_batch_size 2 \<and> reduced_batch_size 2 < 2) \<and>
   (7 * 90 div 10 - 1 \<le> reduced_batch_size 90 \<and> reduced_batch_size 90 \<le> 7 * 90 div 10) \<and>
   reduced_batch_size 90 = 62 \<and>
   split_loop example_pdf_lib example_pages 3 3 1 [replicate 100000 0] = Some (Inr [replicate 100000 0]) \<and>
   split_loop broken_pdf_lib example_pages 3 0 2 [] = Some (Inl (LibraryError ''cannot save'')) \<and>
   split_loop example_pdf_lib example_pages 3 0 2 [] = split_loop example_pdf_lib example_pages 3 0 (reduced_batch_size 2) [] \<and>
   split_loop example_pdf_lib example_pages 3 1 1 [replicate 100000 0] =
     split_loop example_pdf_lib example_pages 3 2 (next_batch_size 1 5000000) [replicate 100000 0, replicate 5000000 0] \<and>
   1 \<le> next_batch_size 2 5100000 \<and>
   (\<exists>r. split_loop example_pdf_lib example_pages 3 0 2 [] = Some r) \<and>
   (\<exists>ends. page_ranges example_pdf_lib example_pages 0 ends 
     [replicate 100000 0, replicate 5000000 0, replicate 100000 0] \<and> last (0 # ends) = 3) \<and>
   page_ranges example_pdf_lib example_pages 0 [1, 2, 3] 
     [replicate 100000 0, replicate 5000000 0, replicate 100000 0] \<and>
   (\<exists>r. split_pdf example_pdf_lib example_pdf_file = Some r) \<and>
   (\<exists>ends. split_pdf example_pdf_lib example_pdf_file = Some ([], Inr 
     [replicate 100000 0, replicate 5000000 0, replicate 100000 0]) \<and>
      page_ranges example_pdf_lib example_pages 0 ends 
     [replicate 100000 0, replicate 5000000 0, replicate 100000 0] \<and> last (0 # ends) = page_count example_pdf_lib example_pages)"
proof -
  note at_first = split_pdf_batch_search_terminates [where b = 2 and current_page = 0
      and total_pages = 3 and lib = example_pdf_lib and src_doc = example_pages
      and chunk_data = "replicate 5100000 0" and chunks = "[]" and current_size = 5100000
      and file_bytes = example_pdf_file]
  note at_90 = split_pdf_batch_search_terminates [where b = 90]
  note at_end = split_pdf_batch_search_terminates [where b = 1 and current_page = 3
      and total_pages = 3 and lib = example_pdf_lib and src_doc = example_pages
      and chunks = "[replicate 100000 0]"]
  note at_broken = split_pdf_batch_search_terminates [where b = 2 and current_page = 0
      and total_pages = 3 and lib = broken_pdf_lib and src_doc = example_pages
      and chunks = "[]" and e = "LibraryError ''cannot save''"]
  note at_page_1 = split_pdf_batch_search_terminates [where b = 1 and current_page = 1
      and total_pages = 3 and lib = example_pdf_lib and src_doc = example_pages
      and chunk_data = "replicate 5000000 0" and chunks = "[replicate 100000 0]"]
  have c1: "1 \<le> reduced_batch_size 2 \<and> reduced_batch_size 2 < 2"
    using at_first [THEN conjunct1] by simp
  have c2: "7 * 90 div 10 - 1 \<le> reduced_batch_size 90 \<and> reduced_batch_size 90 \<le> 7 * 90 div 10"
    using at_90 [THEN conjunct2, THEN conjunct1] by simp
  have c3: "reduced_batch_size 90 = 62"
    by (rule reduced_batch_size_90)
  have c4: "split_loop example_pdf_lib example_pages 3 3 1 [replicate 100000 0] = Some (Inr [replicate 100000 0])"
    using at_end [THEN conjunct2, THEN conjunct2, THEN conjunct2, THEN conjunct1] by simp
  have "save_pages broken_pdf_lib example_pages 0 (int (min (0 + 2) 3) - 1) =
      Inl (LibraryError ''cannot save'')"
    by (simp add: broken_pdf_lib_def)
  then have c5: "split_loop broken_pdf_lib example_pages 3 0 2 [] =
      Some (Inl (LibraryError ''cannot save''))"
    using at_broken [THEN conjunct2, THEN conjunct2, THEN conjunct2, THEN conjunct2, THEN conjunct1] by simp
  have first: "save_pages example_pdf_lib example_pages 0 (int (min (0 + 2) 3) - 1) = Inr (replicate 5100000 0)"
    by (simp add: example_lib_fields example_save_pages_values)
  have over: "TARGET_LIMIT_BYTES < length (replicate 5100000 (0::nat))"
    by (simp add: TARGET_LIMIT_BYTES_def)
  have c6: "split_loop example_pdf_lib example_pages 3 0 2 [] = split_loop example_pdf_lib example_pages 3 0 (reduced_batch_size 2) []"
    using at_first [THEN conjunct2, THEN conjunct2, THEN conjunct2, THEN conjunct2, THEN conjunct2, THEN conjunct1] first over by simp
  have second: "save_pages example_pdf_lib example_pages 1 (int (min (1 + 1) 3) - 1) = Inr (replicate 5000000 0)"
    by (simp add: example_lib_fields example_save_pages_values example_save_pages_Suc_0)
  have c7: "split_loop example_pdf_lib example_pages 3 1 1 [replicate 100000 0] =
     split_loop example_pdf_lib example_pages 3 2 (next_batch_size 1 5000000) [replicate 100000 0, replicate 5000000 0]"
    using at_page_1 [THEN conjunct2, THEN conjunct2, THEN conjunct2, THEN conjunct2, THEN conjunct2, THEN conjunct2, THEN conjunct1] second by (simp add: numeral_2_eq_2)
  have c8: "1 \<le> next_batch_size 2 5100000"
    using at_first [THEN conjunct2, THEN conjunct2, THEN conjunct2, THEN conjunct2, THEN conjunct2, THEN conjunct2, THEN conjunct2, THEN conjunct1] by simp
  have c9: "\<exists>r. split_loop example_pdf_lib example_pages 3 0 2 [] = Some r"
    using at_first [THEN conjunct2, THEN conjunct2, THEN conjunct2, THEN conjunct2, THEN conjunct2, THEN conjunct2, THEN conjunct2, THEN conjunct2, THEN conjunct1] by simp
  have run: "split_loop example_pdf_lib example_pages 3 0 2 [] = Some (Inr 
     [replicate 100000 0, replicate 5000000 0, replicate 100000 0])"
    using example_split_loop by (simp add: numeral_2_eq_2)
  have "(\<exists>e. split_loop example_pdf_lib example_pages 3 0 2 [] = Some (Inl e)) \<or>
      (\<exists>ends cs. split_loop example_pdf_lib example_pages 3 0 2 [] = Some (Inr ([] @ cs)) \<and>
          page_ranges example_pdf_lib example_pages 0 ends cs \<and> last (0 # ends) = 3)"
    using at_first [THEN conjunct2, THEN conjunct2, THEN conjunct2, THEN conjunct2, THEN conjunct2, THEN conjunct2, THEN conjunct2, THEN conjunct2, THEN conjunct2, THEN conjunct1] by simp
  then have c10: "\<exists>ends. page_ranges example_pdf_lib example_pages 0 ends 
     [replicate 100000 0, replicate 5000000 0, replicate 100000 0] \<and> last (0 # ends) = 3"
    unfolding run by auto
  have c11: "page_ranges example_pdf_lib example_pages 0 [1, 2, 3] 
     [replicate 100000 0, replicate 5000000 0, replicate 100000 0]"
    by (simp add: example_lib_fields example_save_pages_values example_save_pages_Suc_0
        TARGET_LIMIT_BYTES_def)
  have c12: "\<exists>r. split_pdf example_pdf_lib example_pdf_file = Some r"
    using at_first [THEN conjunct2, THEN conjunct2, THEN conjunct2, THEN conjunct2, THEN conjunct2, THEN conjunct2, THEN conjunct2, THEN conjunct2, THEN conjunct2, THEN conjunct2, THEN conjunct1] .
  have big: "TARGET_LIMIT_BYTES \<le> length example_pdf_file"
    by (simp add: example_lib_fields TARGET_LIMIT_BYTES_def)
  have "(\<exists>e. split_pdf example_pdf_lib example_pdf_file =
        Some ([LogException e], Inl (PDFSplitError e))) \<or>
      (\<exists>ends cs. split_pdf example_pdf_lib example_pdf_file = Some ([], Inr cs) \<and>
          page_ranges example_pdf_lib example_pages 0 ends cs \<and> last (0 # ends) = page_count example_pdf_lib example_pages)"
    using at_first [THEN conjunct2, THEN conjunct2, THEN conjunct2, THEN conjunct2, THEN conjunct2, THEN conjunct2, THEN conjunct2, THEN conjunct2, THEN conjunct2, THEN conjunct2, THEN conjunct2] big example_lib_fields(3) by blast
  then have c13: "\<exists>ends. split_pdf example_pdf_lib example_pdf_file = Some ([], Inr 
     [replicate 100000 0, replicate 5000000 0, replicate 100000 0]) \<and>
      page_ranges example_pdf_lib example_pages 0 ends 
     [replicate 100000 0, replicate 5000000 0, replicate 100000 0] \<and> last (0 # ends) = page_count example_pdf_lib example_pages"
    unfolding example_split_pdf by auto
  from c1 c2 c3 c4 c5 c6 c7 c8 c9 c10 c11 c12 c13 show ?thesis
    by (intro conjI) (erule conjunct1 conjunct2 | assumption)+
qed

section \<open>Small inputs and documents without pages\<close>

text \<open>
  Claim C5, as the code has it. An input under the hard limit is returned as the only chunk,
  without being opened; an input of at least the hard limit that opens as a document without
  pages gives no chunk.
\<close>

theorem split_pdf_small_or_no_pages:
  "(length file_bytes < TARGET_LIMIT_BYTES \<longrightarrow>
      split_pdf lib file_bytes = Some ([], Inr [file_bytes])) \<and>
   (TARGET_LIMIT_BYTES \<le> length file_bytes \<and> fitz_open lib file_bytes = Inr src_doc \<and>
    page_count lib src_doc = 0 \<longrightarrow>
      split_pdf lib file_bytes = Some ([], Inr []))"
  by (simp add: split_pdf_def)

theorem split_pdf_small_or_no_pages_witness:
  "split_pdf example_pdf_lib [1, 2, 3] = Some ([], Inr [[1, 2, 3]]) \<and>
   split_pdf empty_pdf_lib (replicate 4194304 0) = Some ([], Inr [])"
proof -
  have small: "length [1, 2, 3 :: nat] < TARGET_LIMIT_BYTES"
    by (simp add: TARGET_LIMIT_BYTES_def)
  have big: "TARGET_LIMIT_BYTES \<le> length (replicate 4194304 (0::nat))"
    by (simp add: TARGET_LIMIT_BYTES_def)
  have opened: "fitz_open empty_pdf_lib (replicate 4194304 0) = Inr []"
    "page_count empty_pdf_lib [] = 0"
    by (simp_all add: empty_pdf_lib_def)
  from small big opened
    split_pdf_small_or_no_pages [of "[1, 2, 3]" example_pdf_lib]
    split_pdf_small_or_no_pages [of "replicate 4194304 0" empty_pdf_lib "[]"]
  show ?thesis
    by blast
qed

text \<open>
  A small input that opens as a document without pages is returned as one chunk: the size
  test comes before the document is opened.
\<close>

theorem split_pdf_small_no_pages_counterexample:
  "fitz_open empty_pdf_lib [1, 2, 3] = Inr [] \<and>
   page_count empty_pdf_lib [] = 0 \<and>
   split_pdf empty_pdf_lib [1, 2, 3] = Some ([], Inr [[1, 2, 3]]) \<and>
   split_pdf empty_pdf_lib [1, 2, 3] \<noteq> Some ([], Inr [])"
  by (simp add: split_pdf_def empty_pdf_lib_def TARGET_LIMIT_BYTES_def)

end
